theory Spec2Isabelle
  imports Main "HOL-Library.Product_Lexorder" "HOL-Library.Multiset"
begin

section \<open>Strings of the host language\<close>

text \<open>
  Strings are lists of code units; the model covers the ASCII range, where the
  white space removed by \<^verbatim>\<open>String.prototype.trim\<close> is tab, line feed, vertical tab,
  form feed, carriage return and space, and \<^verbatim>\<open>toLowerCase\<close> maps A..Z to a..z.
\<close>

definition is_ws :: "char \<Rightarrow> bool" where
  "is_ws c \<longleftrightarrow>
     c = CHR 0x09 \<or> c = CHR 0x0A \<or> c = CHR 0x0B \<or> c = CHR 0x0C \<or> c = CHR 0x0D \<or> c = CHR '' ''"

definition trim :: "string \<Rightarrow> string" where
  "trim s = rev (dropWhile is_ws (rev (dropWhile is_ws s)))"

definition lower_char :: "char \<Rightarrow> char" where
  "lower_char c =
     (let n = (of_char c :: nat) in if 65 \<le> n \<and> n \<le> 90 then char_of (n + 32) else c)"

definition toLowerCase :: "string \<Rightarrow> string" where
  "toLowerCase s = map lower_char s"

definition startsWith :: "string \<Rightarrow> string \<Rightarrow> bool" where
  "startsWith s p \<longleftrightarrow> take (length p) s = p"

text \<open>\<^verbatim>\<open>s.split(sep)\<close> for a separator of one character: the result is never empty.\<close>

fun js_split :: "char \<Rightarrow> string \<Rightarrow> string list" where
  "js_split sep [] = [[]]"
| "js_split sep (c # cs) =
     (if c = sep then [] # js_split sep cs
      else (case js_split sep cs of
              w # ws \<Rightarrow> (c # w) # ws
            | [] \<Rightarrow> [[c]]))"

text \<open>Array indexing: an index out of range reads \<^verbatim>\<open>undefined\<close>, here \<open>None\<close>.\<close>

definition nth_opt :: "'a list \<Rightarrow> nat \<Rightarrow> 'a option" where
  "nth_opt xs i = (if i < length xs then Some (xs ! i) else None)"

text \<open>
  A request field that should hold a string is \<open>None\<close> when it is \<^verbatim>\<open>undefined\<close>;
  \<^verbatim>\<open>!v\<close> is true of \<^verbatim>\<open>undefined\<close> and of the empty string.
\<close>

definition falsy :: "string option \<Rightarrow> bool" where
  "falsy v \<longleftrightarrow> v = None \<or> v = Some []"

fun join :: "string \<Rightarrow> string list \<Rightarrow> string" where
  "join sep [] = []"
| "join sep [x] = x"
| "join sep (x # y # ys) = x @ sep @ join sep (y # ys)"

section \<open>Documents, the store and the libraries\<close>

text \<open>
  An object identifier is its canonical string, and a query matches an identifier by
  equality of these strings. Instants are milliseconds on the clock; the numeric value of
  a progress entry is only stored and is an integer here.
\<close>

type_synonym oid = string
type_synonym date = int

record user =
  u_id :: oid
  u_email :: string
  u_password :: string
  u_createdAt :: date
  u_updatedAt :: date

record goal =
  g_id :: oid
  g_userId :: oid
  g_title :: string
  g_description :: "string option"
  g_status :: string
  g_targetDate :: "date option"
  g_createdAt :: date
  g_updatedAt :: date

record progress =
  p_id :: oid
  p_goalId :: oid
  p_userId :: oid
  p_date :: date
  p_notes :: "string option"
  p_value :: "int option"
  p_createdAt :: date
  p_updatedAt :: date

text \<open>The three collections, each in insertion order.\<close>

record db =
  users :: "user list"
  goals :: "goal list"
  progresses :: "progress list"

definition empty_db :: db where
  "empty_db = \<lparr>users = [], goals = [], progresses = []\<rparr>"

datatype jwt_error = TokenExpiredError | JsonWebTokenError | NotBeforeError

text \<open>
  The third-party libraries are parameters of the model: the identifier check of the
  object mapper, the token library (verification reads the clock; a decoded payload is
  represented by its \<^verbatim>\<open>userId\<close> field, \<open>None\<close> when the payload has none; signing
  may throw, here \<open>None\<close>) and the password hash.
\<close>

record env =
  ObjectId_isValid :: "string \<Rightarrow> bool"
  jwt_verify :: "date \<Rightarrow> string \<Rightarrow> jwt_error + string option"
  jwt_sign :: "date \<Rightarrow> oid \<Rightarrow> string option"
  bcrypt_hash :: "string \<Rightarrow> string"
  bcrypt_compare :: "string \<Rightarrow> string \<Rightarrow> bool"

section \<open>Errors and responses\<close>

text \<open>
  An error handed to \<^verbatim>\<open>next\<close> carries a message and, when the controller set one, a
  status code. The terminal handler of \<^verbatim>\<open>server.js\<close> turns it into the response; the
  stack trace it adds under the development flag is not modelled.
\<close>

datatype js_error = Error (statusCode: "nat option") (message: string)

datatype payload =
    Token string
  | GoalDoc goal
  | GoalList "goal list"
  | ProgressDoc progress
  | ProgressList "progress list"
  | Message string
  | Empty

datatype response = Response (res_status: nat) (res_body: payload)

definition errorHandler :: "js_error \<Rightarrow> response" where
  "errorHandler err =
     Response
       (case statusCode err of None \<Rightarrow> 500 | Some c \<Rightarrow> if c = 0 then 500 else c)
       (Message (if message err = [] then ''Internal Server Error'' else message err))"

text \<open>What a middleware or controller does: hand an error to \<^verbatim>\<open>next\<close>, or send.\<close>

datatype outcome = Next js_error | Sent response

definition respond :: "outcome \<Rightarrow> response" where
  "respond out = (case out of Next err \<Rightarrow> errorHandler err | Sent r \<Rightarrow> r)"

section \<open>The access-control gate (auth.middleware.js)\<close>

definition User_findById :: "db \<Rightarrow> oid \<Rightarrow> user option" where
  "User_findById d uid = find (\<lambda>u. u_id u = uid) (users d)"

definition extractToken :: "string option \<Rightarrow> string option" where
  "extractToken authorization =
     (case authorization of
        None \<Rightarrow> None
      | Some h \<Rightarrow>
          if h \<noteq> [] \<and> startsWith h ''Bearer '' then nth_opt (js_split CHR '' '' h) 1
          else None)"

text \<open>What the \<^verbatim>\<open>try\<close> block of the gate throws; the \<^verbatim>\<open>catch\<close> only logs which it was.\<close>

datatype auth_failure = VerifyFailed jwt_error | InvalidTokenPayload | UserNoLongerExists

definition verifyAndLoad :: "env \<Rightarrow> db \<Rightarrow> date \<Rightarrow> string \<Rightarrow> auth_failure + oid" where
  "verifyAndLoad e d now token =
     (case jwt_verify e now token of
        Inl err \<Rightarrow> Inl (VerifyFailed err)
      | Inr decoded \<Rightarrow>
          if falsy decoded then Inl InvalidTokenPayload
          else (case decoded of
                  None \<Rightarrow> Inl InvalidTokenPayload
                | Some uid \<Rightarrow>
                    (case User_findById d uid of
                       None \<Rightarrow> Inl UserNoLongerExists
                     | Some u \<Rightarrow> Inr uid)))"

text \<open>The gate yields the error for \<^verbatim>\<open>next\<close>, or the identifier attached as \<^verbatim>\<open>req.user.id\<close>.\<close>

definition protect :: "env \<Rightarrow> db \<Rightarrow> date \<Rightarrow> string option \<Rightarrow> js_error + oid" where
  "protect e d now authorization =
     (let token = extractToken authorization in
      if falsy token then Inl (Error (Some 401) ''Not authorized, no token'')
      else (case token of
              None \<Rightarrow> Inl (Error (Some 401) ''Not authorized, no token'')
            | Some t \<Rightarrow>
                (case verifyAndLoad e d now t of
                   Inl failure \<Rightarrow> Inl (Error (Some 401) ''Not authorized, token failed'')
                 | Inr uid \<Rightarrow> Inr uid)))"

text \<open>
  A protected route of \<^verbatim>\<open>api.routes.js\<close>: the gate, then the controller with the
  attached identifier. A controller returns its outcome and the store it leaves.
\<close>

definition protected ::
  "env \<Rightarrow> db \<Rightarrow> date \<Rightarrow> string option \<Rightarrow> (oid \<Rightarrow> outcome \<times> db) \<Rightarrow> outcome \<times> db" where
  "protected e d now authorization controller =
     (case protect e d now authorization of
        Inl err \<Rightarrow> (Next err, d)
      | Inr uid \<Rightarrow> controller uid)"

section \<open>Schema enforcement of the object mapper (the model files)\<close>

text \<open>
  What reaches the store layer from a controller that fails is either a validation
  error with the messages of the failing paths (in schema order), or a violation of a
  unique index.
\<close>

datatype store_error = ValidationError "string list" | DuplicateKey

text \<open>
  Goal schema. The \<^verbatim>\<open>trim\<close> option is a setter: it is applied when the value is
  assigned, so the validators below see the trimmed value. A string path that is
  \<^verbatim>\<open>required\<close> rejects the empty string.
\<close>

definition title_errors :: "string \<Rightarrow> string list" where
  "title_errors t =
     (if t = [] then [''Goal title cannot be empty'']
      else if 150 < length t then [''Goal title cannot exceed 150 characters'']
      else [])"

definition description_errors :: "string \<Rightarrow> string list" where
  "description_errors s =
     (if 500 < length s then [''Goal description cannot exceed 500 characters''] else [])"

definition status_errors :: "string \<Rightarrow> string list" where
  "status_errors s =
     (if s = [] then [''Path `status` is required.'']
      else if s \<noteq> ''active'' \<and> s \<noteq> ''completed''
        then [s @ '' is not a supported goal status. Please use 'active' or 'completed'.'']
      else [])"

definition notes_errors :: "string \<Rightarrow> string list" where
  "notes_errors s =
     (if 500 < length s then [''Progress notes cannot exceed 500 characters''] else [])"

text \<open>The pattern \<^verbatim>\<open>/^\S+@\S+\.\S+$/\<close> of the user schema.\<close>

definition email_match :: "string \<Rightarrow> bool" where
  "email_match s \<longleftrightarrow>
     \<not> list_ex is_ws s \<and>
     list_ex (\<lambda>i. s ! i = CHR ''@'' \<and>
                  list_ex (\<lambda>j. s ! j = CHR ''.'') [i + 2 ..< length s - 1])
       [1 ..< length s]"

definition email_errors :: "string \<Rightarrow> string list" where
  "email_errors s =
     (if s = [] then [''Email is required'']
      else if \<not> email_match s then [''Please provide a valid email address'']
      else [])"

definition password_errors :: "string \<Rightarrow> string list" where
  "password_errors s =
     (if s = [] then [''Password is required'']
      else if length s < 8 then [''Password must be at least 8 characters long'']
      else [])"

definition opt_errors :: "('a \<Rightarrow> string list) \<Rightarrow> 'a option \<Rightarrow> string list" where
  "opt_errors f v = (case v of None \<Rightarrow> [] | Some x \<Rightarrow> f x)"

text \<open>
  The fields a goal request body may carry, each \<open>None\<close> when \<^verbatim>\<open>undefined\<close>. String
  fields hold strings and dates are already parsed instants: values of other JSON
  types, and with them cast failures, are outside the model.
\<close>

record goal_body =
  b_title :: "string option"
  b_description :: "string option"
  b_status :: "string option"
  b_targetDate :: "date option"

record progress_body =
  b_date :: "date option"
  b_notes :: "string option"
  b_value :: "int option"

text \<open>
  \<^verbatim>\<open>Model.create\<close>: defaults and setters, validation, then the insert. The identifier
  the driver generates for the new document is the argument \<open>newId\<close>; the store's
  unique index on \<^verbatim>\<open>_id\<close> rejects one that is already taken.
\<close>

definition Goal_create ::
  "db \<Rightarrow> oid \<Rightarrow> date \<Rightarrow> oid \<Rightarrow> string \<Rightarrow> string option \<Rightarrow> string option \<Rightarrow> date option
     \<Rightarrow> store_error + goal \<times> db" where
  "Goal_create d newId now userId title description status targetDate =
     (let doc = \<lparr>g_id = newId, g_userId = userId, g_title = trim title,
                 g_description = map_option trim description,
                 g_status = (case status of None \<Rightarrow> ''active'' | Some s \<Rightarrow> s),
                 g_targetDate = targetDate, g_createdAt = now, g_updatedAt = now\<rparr>;
          errs = title_errors (g_title doc) @ opt_errors description_errors (g_description doc)
                   @ status_errors (g_status doc)
      in if errs \<noteq> [] then Inl (ValidationError errs)
         else if newId \<in> set (map g_id (goals d)) then Inl DuplicateKey
         else Inr (doc, d\<lparr>goals := goals d @ [doc]\<rparr>))"

definition Progress_create ::
  "db \<Rightarrow> oid \<Rightarrow> date \<Rightarrow> oid \<Rightarrow> oid \<Rightarrow> date option \<Rightarrow> string option \<Rightarrow> int option
     \<Rightarrow> store_error + progress \<times> db" where
  "Progress_create d newId now userId goalId date notes val =
     (let doc = \<lparr>p_id = newId, p_goalId = goalId, p_userId = userId,
                 p_date = (case date of None \<Rightarrow> now | Some t \<Rightarrow> t),
                 p_notes = map_option trim notes, p_value = val,
                 p_createdAt = now, p_updatedAt = now\<rparr>;
          errs = opt_errors notes_errors (p_notes doc)
      in if errs \<noteq> [] then Inl (ValidationError errs)
         else if newId \<in> set (map p_id (progresses d)) then Inl DuplicateKey
         else Inr (doc, d\<lparr>progresses := progresses d @ [doc]\<rparr>))"

text \<open>
  The user schema lower-cases and trims the email; validation sees the plaintext
  password, the pre-save hook then stores its hash. The email has a unique index.
\<close>

definition User_create ::
  "env \<Rightarrow> db \<Rightarrow> oid \<Rightarrow> date \<Rightarrow> string \<Rightarrow> string \<Rightarrow> store_error + user \<times> db" where
  "User_create e d newId now email password =
     (let email' = trim (toLowerCase email);
          errs = email_errors email' @ password_errors password;
          doc = \<lparr>u_id = newId, u_email = email', u_password = bcrypt_hash e password,
                 u_createdAt = now, u_updatedAt = now\<rparr>
      in if errs \<noteq> [] then Inl (ValidationError errs)
         else if newId \<in> set (map u_id (users d)) \<or> email' \<in> set (map u_email (users d))
           then Inl DuplicateKey
         else Inr (doc, d\<lparr>users := users d @ [doc]\<rparr>))"

text \<open>Queries. The filter value of the email path passes through the schema's setters.\<close>

definition User_findOne :: "db \<Rightarrow> string \<Rightarrow> user option" where
  "User_findOne d email = find (\<lambda>u. u_email u = trim (toLowerCase email)) (users d)"

definition Goal_findOne :: "db \<Rightarrow> oid \<Rightarrow> oid \<Rightarrow> goal option" where
  "Goal_findOne d gid userId = find (\<lambda>g. g_id g = gid \<and> g_userId g = userId) (goals d)"

text \<open>Descending sort on a key, as \<^verbatim>\<open>.sort({key: -1})\<close>.\<close>

definition sort_desc :: "('a \<Rightarrow> 'k::linorder) \<Rightarrow> 'a list \<Rightarrow> 'a list" where
  "sort_desc key xs = rev (sort_key key xs)"

definition Goal_find :: "db \<Rightarrow> oid \<Rightarrow> goal list" where
  "Goal_find d userId = filter (\<lambda>g. g_userId g = userId) (goals d)"

definition Progress_find :: "db \<Rightarrow> oid \<Rightarrow> oid \<Rightarrow> progress list" where
  "Progress_find d goalId userId =
     filter (\<lambda>p. p_goalId p = goalId \<and> p_userId p = userId) (progresses d)"

fun update_first :: "('a \<Rightarrow> bool) \<Rightarrow> ('a \<Rightarrow> 'a) \<Rightarrow> 'a list \<Rightarrow> 'a list" where
  "update_first P f [] = []"
| "update_first P f (x # xs) = (if P x then f x # xs else x # update_first P f xs)"

fun delete_first :: "('a \<Rightarrow> bool) \<Rightarrow> 'a list \<Rightarrow> 'a list" where
  "delete_first P [] = []"
| "delete_first P (x # xs) = (if P x then xs else x # delete_first P xs)"

text \<open>
  The \<^verbatim>\<open>$set\<close> of an update: the supplied paths, through their setters, and the
  \<^verbatim>\<open>updatedAt\<close> timestamp.
\<close>

definition apply_set :: "goal_body \<Rightarrow> date \<Rightarrow> goal \<Rightarrow> goal" where
  "apply_set u now g =
     g\<lparr>g_title := (case b_title u of None \<Rightarrow> g_title g | Some t \<Rightarrow> trim t),
       g_description := (case b_description u of None \<Rightarrow> g_description g | Some s \<Rightarrow> Some (trim s)),
       g_status := (case b_status u of None \<Rightarrow> g_status g | Some s \<Rightarrow> s),
       g_targetDate := (case b_targetDate u of None \<Rightarrow> g_targetDate g | Some t \<Rightarrow> Some t),
       g_updatedAt := now\<rparr>"

text \<open>
  \<^verbatim>\<open>findOneAndUpdate\<close> with \<^verbatim>\<open>runValidators\<close>: the validators of the paths being set
  run on the update before the store is queried; with \<^verbatim>\<open>new: true\<close> the updated
  document is returned, \<open>None\<close> when no document matches the filter.
\<close>

definition Goal_findOneAndUpdate ::
  "db \<Rightarrow> oid \<Rightarrow> oid \<Rightarrow> goal_body \<Rightarrow> date \<Rightarrow> store_error + goal option \<times> db" where
  "Goal_findOneAndUpdate d gid userId u now =
     (let errs = opt_errors title_errors (map_option trim (b_title u))
                   @ opt_errors description_errors (map_option trim (b_description u))
                   @ opt_errors status_errors (b_status u)
      in if errs \<noteq> [] then Inl (ValidationError errs)
         else (case Goal_findOne d gid userId of
                 None \<Rightarrow> Inr (None, d)
               | Some g \<Rightarrow>
                   Inr (Some (apply_set u now g),
                        d\<lparr>goals := update_first (\<lambda>g. g_id g = gid \<and> g_userId g = userId)
                                      (apply_set u now) (goals d)\<rparr>)))"

definition Goal_findOneAndDelete :: "db \<Rightarrow> oid \<Rightarrow> oid \<Rightarrow> goal option \<times> db" where
  "Goal_findOneAndDelete d gid userId =
     (case Goal_findOne d gid userId of
        None \<Rightarrow> (None, d)
      | Some g \<Rightarrow>
          (Some g, d\<lparr>goals := delete_first (\<lambda>g. g_id g = gid \<and> g_userId g = userId) (goals d)\<rparr>))"

definition Progress_deleteMany :: "db \<Rightarrow> oid \<Rightarrow> oid \<Rightarrow> db" where
  "Progress_deleteMany d goalId userId =
     d\<lparr>progresses := filter (\<lambda>p. \<not> (p_goalId p = goalId \<and> p_userId p = userId)) (progresses d)\<rparr>"

section \<open>Controllers\<close>

definition isValidObjectId :: "env \<Rightarrow> string \<Rightarrow> bool" where
  "isValidObjectId e ident = ObjectId_isValid e ident"

definition handleValidationError :: "string list \<Rightarrow> js_error" where
  "handleValidationError messages =
     Error (Some 400) (''Validation Failed: '' @ join '', '' messages)"

text \<open>
  An error of the store that is not a validation error goes to \<^verbatim>\<open>next\<close> as it is,
  without a status code; its message is the driver's and is abbreviated here.
\<close>

definition duplicateKeyError :: js_error where
  "duplicateKeyError = Error None ''E11000 duplicate key error''"

subsection \<open>auth.controller.js\<close>

definition generateToken :: "env \<Rightarrow> date \<Rightarrow> oid \<Rightarrow> js_error + string" where
  "generateToken e now userId =
     (case jwt_sign e now userId of
        None \<Rightarrow> Inl (Error None ''Failed to generate authentication token.'')
      | Some token \<Rightarrow> Inr token)"

definition registerUser ::
  "env \<Rightarrow> db \<Rightarrow> oid \<Rightarrow> date \<Rightarrow> string option \<Rightarrow> string option \<Rightarrow> outcome \<times> db" where
  "registerUser e d newId now email password =
     (if falsy email \<or> falsy password
        then (Next (Error (Some 400) ''Email and password are required.''), d)
      else (case (email, password) of
              (Some em, Some pw) \<Rightarrow>
                (let lowerCaseEmail = toLowerCase em in
                 case User_findOne d lowerCaseEmail of
                   Some existingUser \<Rightarrow> (Next (Error (Some 409) ''Email already in use.''), d)
                 | None \<Rightarrow>
                     (case User_create e d newId now lowerCaseEmail pw of
                        Inl (ValidationError messages) \<Rightarrow> (Next (handleValidationError messages), d)
                      | Inl DuplicateKey \<Rightarrow> (Next duplicateKeyError, d)
                      | Inr (newUser, d') \<Rightarrow>
                          (case generateToken e now (u_id newUser) of
                             Inl err \<Rightarrow> (Next err, d')
                           | Inr token \<Rightarrow> (Sent (Response 201 (Token token)), d'))))
            | _ \<Rightarrow> (Next (Error (Some 400) ''Email and password are required.''), d)))"

definition loginUser ::
  "env \<Rightarrow> db \<Rightarrow> date \<Rightarrow> string option \<Rightarrow> string option \<Rightarrow> outcome \<times> db" where
  "loginUser e d now email password =
     (if falsy email \<or> falsy password
        then (Next (Error (Some 400) ''Email and password are required.''), d)
      else (case (email, password) of
              (Some em, Some pw) \<Rightarrow>
                (let lowerCaseEmail = toLowerCase em in
                 case User_findOne d lowerCaseEmail of
                   None \<Rightarrow> (Next (Error (Some 401) ''Invalid credentials.''), d)
                 | Some u \<Rightarrow>
                     if \<not> bcrypt_compare e pw (u_password u)
                       then (Next (Error (Some 401) ''Invalid credentials.''), d)
                     else (case generateToken e now (u_id u) of
                             Inl err \<Rightarrow> (Next err, d)
                           | Inr token \<Rightarrow> (Sent (Response 200 (Token token)), d)))
            | _ \<Rightarrow> (Next (Error (Some 400) ''Email and password are required.''), d)))"

subsection \<open>goal.controller.js\<close>

definition createGoal :: "db \<Rightarrow> oid \<Rightarrow> date \<Rightarrow> goal_body \<Rightarrow> oid \<Rightarrow> outcome \<times> db" where
  "createGoal d newId now b userId =
     (case b_title b of
        None \<Rightarrow> (Next (Error (Some 400) ''Goal title is required.''), d)
      | Some title \<Rightarrow>
          if title = [] then (Next (Error (Some 400) ''Goal title is required.''), d)
          else (case Goal_create d newId now userId title (b_description b) (b_status b)
                       (b_targetDate b) of
                  Inl (ValidationError messages) \<Rightarrow> (Next (handleValidationError messages), d)
                | Inl DuplicateKey \<Rightarrow> (Next duplicateKeyError, d)
                | Inr (newGoal, d') \<Rightarrow> (Sent (Response 201 (GoalDoc newGoal)), d')))"

definition getGoals :: "db \<Rightarrow> oid \<Rightarrow> outcome \<times> db" where
  "getGoals d userId =
     (Sent (Response 200 (GoalList (sort_desc g_createdAt (Goal_find d userId)))), d)"

definition getGoalById :: "env \<Rightarrow> db \<Rightarrow> string \<Rightarrow> oid \<Rightarrow> outcome \<times> db" where
  "getGoalById e d ident userId =
     (if \<not> isValidObjectId e ident then (Next (Error (Some 400) ''Invalid Goal ID format.''), d)
      else (case Goal_findOne d ident userId of
              None \<Rightarrow> (Next (Error (Some 404) ''Goal not found.''), d)
            | Some foundGoal \<Rightarrow> (Sent (Response 200 (GoalDoc foundGoal)), d)))"

text \<open>
  In \<^verbatim>\<open>updateGoal\<close> the object \<^verbatim>\<open>updateData\<close> gets exactly the supplied fields of the
  body, so it is the body itself once the title check has passed.
\<close>

definition updateGoal :: "env \<Rightarrow> db \<Rightarrow> date \<Rightarrow> string \<Rightarrow> goal_body \<Rightarrow> oid \<Rightarrow> outcome \<times> db" where
  "updateGoal e d now ident b userId =
     (if \<not> isValidObjectId e ident then (Next (Error (Some 400) ''Invalid Goal ID format.''), d)
      else if (case b_title b of None \<Rightarrow> False | Some title \<Rightarrow> trim title = [])
        then (Next (Error (Some 400) ''Goal title cannot be empty.''), d)
      else if b_title b = None \<and> b_description b = None \<and> b_status b = None
                \<and> b_targetDate b = None
        then (Next (Error (Some 400) ''No update fields provided.''), d)
      else (case Goal_findOneAndUpdate d ident userId b now of
              Inl (ValidationError messages) \<Rightarrow> (Next (handleValidationError messages), d)
            | Inl DuplicateKey \<Rightarrow> (Next duplicateKeyError, d)
            | Inr (None, d') \<Rightarrow> (Next (Error (Some 404) ''Goal not found.''), d')
            | Inr (Some updatedGoal, d') \<Rightarrow> (Sent (Response 200 (GoalDoc updatedGoal)), d')))"

definition deleteGoal :: "env \<Rightarrow> db \<Rightarrow> string \<Rightarrow> oid \<Rightarrow> outcome \<times> db" where
  "deleteGoal e d ident userId =
     (if \<not> isValidObjectId e ident then (Next (Error (Some 400) ''Invalid Goal ID format.''), d)
      else (case Goal_findOneAndDelete d ident userId of
              (None, d') \<Rightarrow> (Next (Error (Some 404) ''Goal not found.''), d')
            | (Some deletedGoal, d') \<Rightarrow>
                (Sent (Response 204 Empty), Progress_deleteMany d' ident userId)))"

definition logProgress ::
  "env \<Rightarrow> db \<Rightarrow> oid \<Rightarrow> date \<Rightarrow> string \<Rightarrow> progress_body \<Rightarrow> oid \<Rightarrow> outcome \<times> db" where
  "logProgress e d newId now goalId b userId =
     (if \<not> isValidObjectId e goalId then (Next (Error (Some 400) ''Invalid Goal ID format.''), d)
      else (case Goal_findOne d goalId userId of
              None \<Rightarrow> (Next (Error (Some 404) ''Target goal not found.''), d)
            | Some targetGoal \<Rightarrow>
                (case Progress_create d newId now userId goalId (b_date b) (b_notes b) (b_value b) of
                   Inl (ValidationError messages) \<Rightarrow> (Next (handleValidationError messages), d)
                 | Inl DuplicateKey \<Rightarrow> (Next duplicateKeyError, d)
                 | Inr (newProgressLog, d') \<Rightarrow>
                     (Sent (Response 201 (ProgressDoc newProgressLog)), d'))))"

definition getGoalProgress :: "env \<Rightarrow> db \<Rightarrow> string \<Rightarrow> oid \<Rightarrow> outcome \<times> db" where
  "getGoalProgress e d goalId userId =
     (if \<not> isValidObjectId e goalId then (Next (Error (Some 400) ''Invalid Goal ID format.''), d)
      else (case Goal_findOne d goalId userId of
              None \<Rightarrow> (Next (Error (Some 404) ''Target goal not found.''), d)
            | Some targetGoal \<Rightarrow>
                (Sent (Response 200
                   (ProgressList (sort_desc (\<lambda>p. (p_date p, p_createdAt p))
                                    (Progress_find d goalId userId)))), d)))"

section \<open>The route table (api.routes.js) and the reachable stores\<close>

text \<open>
  A request: the route, the \<^verbatim>\<open>Authorization\<close> header (\<open>None\<close> when absent) on the
  protected routes, the path parameter and the body.
\<close>

datatype request =
    PostRegister "string option" "string option"
  | PostLogin "string option" "string option"
  | PostGoals "string option" goal_body
  | GetGoals "string option"
  | GetGoal "string option" string
  | PutGoal "string option" string goal_body
  | DeleteGoal "string option" string
  | PostProgress "string option" string progress_body
  | GetProgress "string option" string

text \<open>
  One request served at time \<open>now\<close>; \<open>newId\<close> is the identifier the driver would give
  a document created while serving it.
\<close>

fun router :: "env \<Rightarrow> db \<Rightarrow> oid \<Rightarrow> date \<Rightarrow> request \<Rightarrow> outcome \<times> db" where
  "router e d newId now (PostRegister email password) = registerUser e d newId now email password"
| "router e d newId now (PostLogin email password) = loginUser e d now email password"
| "router e d newId now (PostGoals h b) = protected e d now h (createGoal d newId now b)"
| "router e d newId now (GetGoals h) = protected e d now h (getGoals d)"
| "router e d newId now (GetGoal h ident) = protected e d now h (getGoalById e d ident)"
| "router e d newId now (PutGoal h ident b) = protected e d now h (updateGoal e d now ident b)"
| "router e d newId now (DeleteGoal h ident) = protected e d now h (deleteGoal e d ident)"
| "router e d newId now (PostProgress h goalId b) =
     protected e d now h (logProgress e d newId now goalId b)"
| "router e d newId now (GetProgress h goalId) = protected e d now h (getGoalProgress e d goalId)"

definition serve :: "env \<Rightarrow> db \<Rightarrow> oid \<Rightarrow> date \<Rightarrow> request \<Rightarrow> response \<times> db" where
  "serve e d newId now req = (case router e d newId now req of (out, d') \<Rightarrow> (respond out, d'))"

text \<open>The stores the service can be in: the empty store, and any store left by a request.\<close>

inductive reachable :: "env \<Rightarrow> db \<Rightarrow> bool" for e :: env where
  reachable_empty: "reachable e empty_db"
| reachable_serve: "reachable e d \<Longrightarrow> reachable e (snd (serve e d newId now req))"

text \<open>
  The ownership invariant of the store: identifiers are unique within a collection and
  every progress entry references a stored goal of the same owner.
\<close>

definition store_ok :: "db \<Rightarrow> bool" where
  "store_ok d \<longleftrightarrow>
     distinct (map g_id (goals d)) \<and> distinct (map p_id (progresses d)) \<and>
     list_all (\<lambda>p. list_ex (\<lambda>g. g_id g = p_goalId p \<and> g_userId g = p_userId p) (goals d))
       (progresses d)"

text \<open>The order of a progress listing: later entry date first, then later creation first.\<close>

definition listed_before :: "progress \<Rightarrow> progress \<Rightarrow> bool" where
  "listed_before p q \<longleftrightarrow>
     p_date q < p_date p \<or> (p_date p = p_date q \<and> p_createdAt q \<le> p_createdAt p)"

text \<open>The header a request presents to the gate; the two auth routes are not gated.\<close>

fun gate_header :: "request \<Rightarrow> string option option" where
  "gate_header (PostRegister email password) = None"
| "gate_header (PostLogin email password) = None"
| "gate_header (PostGoals h b) = Some h"
| "gate_header (GetGoals h) = Some h"
| "gate_header (GetGoal h ident) = Some h"
| "gate_header (PutGoal h ident b) = Some h"
| "gate_header (DeleteGoal h ident) = Some h"
| "gate_header (PostProgress h goalId b) = Some h"
| "gate_header (GetProgress h goalId) = Some h"


section \<open>A concrete instance for evaluation\<close>

text \<open>
  Stand-ins for the libraries: identifiers are 24 hexadecimal digits; the token of an
  account is its identifier behind \<^verbatim>\<open>jwt.\<close>, an expired one behind \<^verbatim>\<open>old.\<close>; the
  hash of a password is the password behind \<^verbatim>\<open>$2a$\<close>.
\<close>

definition is_hex :: "char \<Rightarrow> bool" where
  "is_hex c \<longleftrightarrow> c \<in> set ''0123456789abcdefABCDEF''"

definition sample_env :: env where
  "sample_env =
     \<lparr>ObjectId_isValid = (\<lambda>s. length s = 24 \<and> list_all is_hex s),
      jwt_verify = (\<lambda>now t. if take 4 t = ''jwt.'' then Inr (Some (drop 4 t))
                             else if take 4 t = ''old.'' then Inl TokenExpiredError
                             else Inl JsonWebTokenError),
      jwt_sign = (\<lambda>now uid. Some (''jwt.'' @ uid)),
      bcrypt_hash = (\<lambda>pw. ''$2a$'' @ pw),
      bcrypt_compare = (\<lambda>pw h. h = ''$2a$'' @ pw)\<rparr>"

definition alice :: oid where "alice = ''0000000000000000000000a1''"
definition bob :: oid where "bob = ''0000000000000000000000b2''"
definition run5k :: oid where "run5k = ''00000000000000000000c001''"

definition no_fields :: goal_body where
  "no_fields = \<lparr>b_title = None, b_description = None, b_status = None, b_targetDate = None\<rparr>"

text \<open>
  Two accounts register, the first creates a goal and logs progress on it twice.
\<close>

definition sample_requests :: "(oid \<times> date \<times> request) list" where
  "sample_requests =
     [(alice, 1000, PostRegister (Some ''a@x.com'') (Some ''password1'')),
      (bob, 2000, PostRegister (Some ''b@x.com'') (Some ''password2'')),
      (run5k, 3000, PostGoals (Some ''Bearer jwt.0000000000000000000000a1'')
                      (no_fields\<lparr>b_title := Some ''Run 5k''\<rparr>)),
      (''00000000000000000000d001'', 4000,
         PostProgress (Some ''Bearer jwt.0000000000000000000000a1'') run5k
           \<lparr>b_date = None, b_notes = None, b_value = Some 3\<rparr>),
      (''00000000000000000000d002'', 5000,
         PostProgress (Some ''Bearer jwt.0000000000000000000000a1'') run5k
           \<lparr>b_date = Some 4000, b_notes = Some '' easy '', b_value = Some 5\<rparr>)]"

fun serve_all :: "env \<Rightarrow> db \<Rightarrow> (oid \<times> date \<times> request) list \<Rightarrow> db" where
  "serve_all e d [] = d"
| "serve_all e d ((newId, now, req) # rest) = serve_all e (snd (serve e d newId now req)) rest"

definition sample_db :: db where
  "sample_db = serve_all sample_env empty_db sample_requests"

section \<open>Properties\<close>

subsection \<open>The sample store and string helpers\<close>

lemma sample_db_eq: "sample_db =
  \<lparr>users =
    [\<lparr>u_id = ''0000000000000000000000a1'', u_email = ''a@x.com'',
        u_password = ''$2a$password1'', u_createdAt = 1000, u_updatedAt = 1000\<rparr>,
     \<lparr>u_id = ''0000000000000000000000b2'', u_email = ''b@x.com'',
        u_password = ''$2a$password2'', u_createdAt = 2000, u_updatedAt = 2000\<rparr>],
    goals =
      [\<lparr>g_id = ''00000000000000000000c001'', g_userId = ''0000000000000000000000a1'',
          g_title = ''Run 5k'', g_description = None, g_status = ''active'',
          g_targetDate = None, g_createdAt = 3000, g_updatedAt = 3000\<rparr>],
    progresses =
      [\<lparr>p_id = ''00000000000000000000d001'', p_goalId = ''00000000000000000000c001'',
          p_userId = ''0000000000000000000000a1'', p_date = 4000,
          p_notes = None, p_value = Some 3, p_createdAt = 4000, p_updatedAt = 4000\<rparr>,
       \<lparr>p_id = ''00000000000000000000d002'', p_goalId = ''00000000000000000000c001'',
          p_userId = ''0000000000000000000000a1'', p_date = 4000,
          p_notes = Some ''easy'', p_value = Some 5, p_createdAt = 5000, p_updatedAt = 5000\<rparr>]\<rparr>"
  by code_simp

lemma js_split_nonempty: "js_split sep s \<noteq> []"
  by (induction s) (auto split: list.splits)

lemma js_split_no_sep: "sep \<notin> set t \<Longrightarrow> js_split sep t = [t]"
  by (induction t) auto

lemma js_split_word: "sep \<notin> set t \<Longrightarrow> js_split sep (t @ sep # rest) = t # js_split sep rest"
  by (induction t) (auto split: list.splits simp: js_split_nonempty)

lemma protect_no_token:
  "extractToken a = None \<or> extractToken a = Some [] \<Longrightarrow>
     protect e d now a = Inl (Error (Some 401) ''Not authorized, no token'')"
  by (auto simp: protect_def falsy_def)

lemma protect_token:
  "extractToken a = Some t \<Longrightarrow> t \<noteq> [] \<Longrightarrow>
     protect e d now a = (case verifyAndLoad e d now t of
                   Inl failure \<Rightarrow> Inl (Error (Some 401) ''Not authorized, token failed'')
                 | Inr uid \<Rightarrow> Inr uid)"
  by (auto simp: protect_def falsy_def)

lemma extractToken_Some:
  "extractToken a = Some t \<longleftrightarrow>
     (\<exists>h. a = Some h \<and> startsWith h ''Bearer '' \<and> 1 < length (js_split CHR '' '' h)
          \<and> js_split CHR '' '' h ! 1 = t)"
  by (cases a) (auto simp: extractToken_def nth_opt_def startsWith_def)

subsection \<open>The gate: token extraction\<close>

lemma startsWith_Bearer_split:
  assumes "startsWith h ''Bearer ''"
  shows "js_split CHR '' '' h = ''Bearer'' # js_split CHR '' '' (drop 7 h)"
proof -
  from assms have "take 7 h = ''Bearer ''"
    by (simp add: startsWith_def eval_nat_numeral)
  then have "h = ''Bearer'' @ CHR '' '' # drop 7 h"
    using append_take_drop_id [of 7 h] by simp
  then have "js_split CHR '' '' h = js_split CHR '' '' (''Bearer'' @ CHR '' '' # drop 7 h)"
    by simp
  also have "\<dots> = ''Bearer'' # js_split CHR '' '' (drop 7 h)"
    by (rule js_split_word) simp
  finally show ?thesis .
qed

lemma startsWith_Bearer_length:
  "startsWith h ''Bearer '' \<Longrightarrow> 1 < length (js_split CHR '' '' h)"
  using js_split_nonempty [of "CHR '' ''" "drop 7 h"]
  by (cases "js_split CHR '' '' (drop 7 h)") (simp_all add: startsWith_Bearer_split)

text \<open>
  Claim C10. The gate takes a token only from an \<^verbatim>\<open>Authorization\<close> header that starts
  with the case-sensitive prefix \<^verbatim>\<open>Bearer \<close>, and the token is the second word of the
  header when it is split at spaces. A missing header, a header without that prefix
  (a lower-case scheme, the bare word \<^verbatim>\<open>Bearer\<close>) and a header whose second word is
  empty all get the same 401 "no token" error.
\<close>

theorem protect_bearer_header:
  "(protect e d now a = Inr uid \<longrightarrow>
      (\<exists>h. a = Some h \<and> startsWith h ''Bearer '' \<and> 1 < length (js_split CHR '' '' h) \<and>
           js_split CHR '' '' h ! 1 \<noteq> [] \<and>
           verifyAndLoad e d now (js_split CHR '' '' h ! 1) = Inr uid))
   \<and> (a = None \<or> (\<exists>h. a = Some h \<and> (\<not> startsWith h ''Bearer '' \<or> js_split CHR '' '' h ! 1 = []))
        \<longrightarrow> protect e d now a = Inl (Error (Some 401) ''Not authorized, no token''))
   \<and> (CHR '' '' \<notin> set t \<longrightarrow>
        extractToken (Some (''Bearer '' @ t)) = Some t \<and>
        extractToken (Some (''Bearer '' @ t @ CHR '' '' # rest)) = Some t)"
proof (intro conjI impI)
  assume ok: "protect e d now a = Inr uid"
  show "\<exists>h. a = Some h \<and> startsWith h ''Bearer '' \<and> 1 < length (js_split CHR '' '' h) \<and>
           js_split CHR '' '' h ! 1 \<noteq> [] \<and>
           verifyAndLoad e d now (js_split CHR '' '' h ! 1) = Inr uid"
  proof (cases "extractToken a")
    case None
    with ok show ?thesis by (simp add: protect_no_token)
  next
    case (Some tok)
    show ?thesis
    proof (cases "tok = []")
      case True
      with Some ok show ?thesis by (simp add: protect_no_token)
    next
      case False
      from Some obtain h where h: "a = Some h" "startsWith h ''Bearer ''"
        "1 < length (js_split CHR '' '' h)" "js_split CHR '' '' h ! 1 = tok"
        unfolding extractToken_Some by blast
      from ok Some False have "verifyAndLoad e d now tok = Inr uid"
        by (simp add: protect_token split: sum.splits)
      with h False show ?thesis by simp
    qed
  qed
next
  assume "a = None \<or> (\<exists>h. a = Some h \<and> (\<not> startsWith h ''Bearer '' \<or> js_split CHR '' '' h ! 1 = []))"
  then have "extractToken a = None \<or> extractToken a = Some []"
    using startsWith_Bearer_length
    by (auto simp: extractToken_def nth_opt_def)
  then show "protect e d now a = Inl (Error (Some 401) ''Not authorized, no token'')"
    by (rule protect_no_token)
next
  assume t: "CHR '' '' \<notin> set t"
  have "js_split CHR '' '' (''Bearer'' @ CHR '' '' # t) = ''Bearer'' # js_split CHR '' '' t"
    by (rule js_split_word) simp
  with t show "extractToken (Some (''Bearer '' @ t)) = Some t"
    by (simp add: extractToken_def startsWith_def nth_opt_def js_split_no_sep)
next
  assume t: "CHR '' '' \<notin> set t"
  have "js_split CHR '' '' (''Bearer'' @ CHR '' '' # t @ CHR '' '' # rest)
          = ''Bearer'' # js_split CHR '' '' (t @ CHR '' '' # rest)"
    by (rule js_split_word) simp
  with t show "extractToken (Some (''Bearer '' @ t @ CHR '' '' # rest)) = Some t"
    by (simp add: extractToken_def startsWith_def nth_opt_def js_split_word)
qed

theorem protect_bearer_header_witness:
  "protect sample_env sample_db 6000 (Some ''Bearer jwt.0000000000000000000000a1 trailing'') = Inr alice
   \<and> startsWith ''Bearer jwt.0000000000000000000000a1 trailing'' ''Bearer ''
   \<and> js_split CHR '' '' ''Bearer jwt.0000000000000000000000a1 trailing'' ! 1 = ''jwt.0000000000000000000000a1''
   \<and> protect sample_env sample_db 6000 None = Inl (Error (Some 401) ''Not authorized, no token'')
   \<and> protect sample_env sample_db 6000 (Some ''bearer jwt.0000000000000000000000a1'')
        = Inl (Error (Some 401) ''Not authorized, no token'')
   \<and> protect sample_env sample_db 6000 (Some ''Bearer'')
        = Inl (Error (Some 401) ''Not authorized, no token'')
   \<and> protect sample_env sample_db 6000 (Some ''Bearer '')
        = Inl (Error (Some 401) ''Not authorized, no token'')
   \<and> extractToken (Some (''Bearer '' @ ''abc'')) = Some ''abc''"
  using protect_bearer_header [of sample_env sample_db 6000 None alice "''abc''" "[]"]
    protect_bearer_header [of sample_env sample_db 6000 "Some ''bearer jwt.0000000000000000000000a1''" alice "''abc''" "[]"]
    protect_bearer_header [of sample_env sample_db 6000 "Some ''Bearer''" alice "''abc''" "[]"]
    protect_bearer_header [of sample_env sample_db 6000 "Some ''Bearer ''" alice "''abc''" "[]"]
  by (simp add: startsWith_def protect_def extractToken_def nth_opt_def falsy_def
       verifyAndLoad_def sample_env_def sample_db_eq User_findById_def alice_def)

subsection \<open>The gate: verification failures\<close>

lemma protected_rejected:
  "protect e d now a = Inl err \<Longrightarrow> protected e d now a controller = (Next err, d)"
  by (simp add: protected_def)

lemma router_rejected:
  "gate_header req = Some a \<Longrightarrow> protect e d now a = Inl err \<Longrightarrow>
     router e d newId now req = (Next err, d)"
  by (cases req) (simp_all add: protected_rejected)

text \<open>
  Claim C2. When a token has been extracted and its verification throws (whatever the
  error: bad signature, expiry, malformed token), or the decoded payload carries no
  account identifier, or that identifier resolves to no stored account, the gate fails
  with 401 and the one message "Not authorized, token failed"; the route answers with
  that error whatever the controller is, and the store is left as it was.
\<close>

theorem protect_verification_failure:
  assumes "extractToken a = Some t" and "t \<noteq> []"
    and "(\<exists>err. jwt_verify e now t = Inl err) \<or>
         (\<exists>decoded. jwt_verify e now t = Inr decoded \<and>
            (falsy decoded \<or> (\<exists>uid. decoded = Some uid \<and> User_findById d uid = None)))"
  shows "protect e d now a = Inl (Error (Some 401) ''Not authorized, token failed'')
       \<and> protected e d now a controller
            = (Next (Error (Some 401) ''Not authorized, token failed''), d)
       \<and> (gate_header req = Some a \<longrightarrow>
            serve e d newId now req
              = (Response 401 (Message ''Not authorized, token failed''), d))"
proof -
  from assms(3) have "\<exists>failure. verifyAndLoad e d now t = Inl failure"
    by (auto simp: verifyAndLoad_def falsy_def split: sum.splits option.splits)
  with assms(1,2) have gate: "protect e d now a = Inl (Error (Some 401) ''Not authorized, token failed'')"
    by (auto simp: protect_token)
  moreover from gate have "protected e d now a controller
      = (Next (Error (Some 401) ''Not authorized, token failed''), d)"
    by (rule protected_rejected)
  moreover have "serve e d newId now req
      = (Response 401 (Message ''Not authorized, token failed''), d)"
    if "gate_header req = Some a"
    using router_rejected [OF that gate]
    by (simp add: serve_def respond_def errorHandler_def)
  ultimately show ?thesis by blast
qed

theorem protect_verification_failure_witness:
  "extractToken (Some ''Bearer old.0000000000000000000000a1'') = Some ''old.0000000000000000000000a1''
   \<and> jwt_verify sample_env 6000 ''old.0000000000000000000000a1'' = Inl TokenExpiredError
   \<and> protect sample_env sample_db 6000 (Some ''Bearer old.0000000000000000000000a1'')
        = Inl (Error (Some 401) ''Not authorized, token failed'')
   \<and> serve sample_env sample_db ''00000000000000000000c002'' 6000
        (GetGoal (Some ''Bearer old.0000000000000000000000a1'') run5k)
        = (Response 401 (Message ''Not authorized, token failed''), sample_db)
   \<and> jwt_verify sample_env 6000 ''jwt.0000000000000000000000ff'' = Inr (Some ''0000000000000000000000ff'')
   \<and> User_findById sample_db ''0000000000000000000000ff'' = None
   \<and> serve sample_env sample_db ''00000000000000000000c002'' 6000
        (DeleteGoal (Some ''Bearer jwt.0000000000000000000000ff'') run5k)
        = (Response 401 (Message ''Not authorized, token failed''), sample_db)"
proof -
  have x1: "extractToken (Some ''Bearer old.0000000000000000000000a1'') = Some ''old.0000000000000000000000a1''"
    by (simp add: extractToken_def startsWith_def nth_opt_def)
  have v1: "jwt_verify sample_env 6000 ''old.0000000000000000000000a1'' = Inl TokenExpiredError"
    by (simp add: sample_env_def)
  have x2: "extractToken (Some ''Bearer jwt.0000000000000000000000ff'') = Some ''jwt.0000000000000000000000ff''"
    by (simp add: extractToken_def startsWith_def nth_opt_def)
  have v2: "jwt_verify sample_env 6000 ''jwt.0000000000000000000000ff'' = Inr (Some ''0000000000000000000000ff'')"
    by (simp add: sample_env_def)
  have u2: "User_findById sample_db ''0000000000000000000000ff'' = None"
    by (simp add: sample_db_eq User_findById_def)
  show ?thesis
    using protect_verification_failure [OF x1, of sample_env 6000 sample_db
        "getGoalById sample_env sample_db run5k"
        "GetGoal (Some ''Bearer old.0000000000000000000000a1'') run5k" "''00000000000000000000c002''"]
      protect_verification_failure [OF x2, of sample_env 6000 sample_db
        "deleteGoal sample_env sample_db run5k"
        "DeleteGoal (Some ''Bearer jwt.0000000000000000000000ff'') run5k" "''00000000000000000000c002''"]
      x1 v1 v2 u2
    by simp
qed

subsection \<open>Login\<close>



subsection \<open>The ownership invariant\<close>

lemma store_ok_iff:
  "store_ok d \<longleftrightarrow>
     distinct (map g_id (goals d)) \<and> distinct (map p_id (progresses d)) \<and>
     (\<forall>p\<in>set (progresses d). \<exists>g\<in>set (goals d). g_id g = p_goalId p \<and> g_userId g = p_userId p)"
  by (simp add: store_ok_def list_all_iff list_ex_iff)

lemma store_ok_empty: "store_ok empty_db"
  by (simp add: store_ok_def empty_db_def)

lemma map_update_first:
  "(\<And>x. k (f x) = k x) \<Longrightarrow> map k (update_first P f xs) = map k xs"
  by (induction xs) auto

lemma in_update_first:
  "x \<in> set xs \<Longrightarrow> x \<in> set (update_first P f xs) \<or> f x \<in> set (update_first P f xs)"
  by (induction xs) auto

lemma set_delete_first: "set (delete_first P xs) \<subseteq> set xs"
  by (induction xs) auto

lemma in_delete_first: "x \<in> set xs \<Longrightarrow> \<not> P x \<Longrightarrow> x \<in> set (delete_first P xs)"
  by (induction xs) auto

lemma distinct_delete_first:
  "distinct (map k xs) \<Longrightarrow> distinct (map k (delete_first P xs))"
proof (induction xs)
  case Nil
  then show ?case by simp
next
  case (Cons x xs)
  then show ?case
    using set_delete_first [of P xs] by auto
qed

lemma find_Some_set: "find P xs = Some x \<Longrightarrow> x \<in> set xs \<and> P x"
  by (induction xs) (auto split: if_splits)

lemma Goal_findOne_Some:
  "Goal_findOne d gid uid = Some g \<Longrightarrow> g \<in> set (goals d) \<and> g_id g = gid \<and> g_userId g = uid"
  unfolding Goal_findOne_def by (drule find_Some_set) simp

lemma Goal_findOne_None:
  "Goal_findOne d gid uid = None \<longleftrightarrow> (\<forall>g\<in>set (goals d). \<not> (g_id g = gid \<and> g_userId g = uid))"
  by (auto simp: Goal_findOne_def find_None_iff)

lemma apply_set_keys [simp]:
  "g_id (apply_set u now g) = g_id g" "g_userId (apply_set u now g) = g_userId g"
  "g_createdAt (apply_set u now g) = g_createdAt g"
  by (simp_all add: apply_set_def)

lemma store_ok_registerUser: "store_ok d \<Longrightarrow> store_ok (snd (registerUser e d newId now email password))"
  by (auto simp: registerUser_def User_create_def Let_def store_ok_def
        split: option.splits sum.splits store_error.splits prod.splits)

lemma loginUser_store: "snd (loginUser e d now email password) = d"
  by (auto simp: loginUser_def Let_def split: option.splits sum.splits)

lemma store_ok_createGoal: "store_ok d \<Longrightarrow> store_ok (snd (createGoal d newId now b uid))"
  by (auto simp: createGoal_def Goal_create_def Let_def store_ok_iff
        split: option.splits sum.splits store_error.splits)

lemma getGoals_store: "snd (getGoals d uid) = d"
  by (simp add: getGoals_def)

lemma getGoalById_store: "snd (getGoalById e d ident uid) = d"
  by (simp add: getGoalById_def split: option.splits)

lemma getGoalProgress_store: "snd (getGoalProgress e d goalId uid) = d"
  by (simp add: getGoalProgress_def split: option.splits)

lemma updateGoal_store:
  "snd (updateGoal e d now ident b uid) = d \<or>
   snd (updateGoal e d now ident b uid)
     = d\<lparr>goals := update_first (\<lambda>g. g_id g = ident \<and> g_userId g = uid) (apply_set b now) (goals d)\<rparr>"
  by (auto simp: updateGoal_def Goal_findOneAndUpdate_def Let_def
        split: option.splits sum.splits store_error.splits)

lemma store_ok_update_first:
  assumes "store_ok d"
  shows "store_ok (d\<lparr>goals := update_first P (apply_set b now) (goals d)\<rparr>)"
proof -
  have "\<exists>g'\<in>set (update_first P (apply_set b now) (goals d)).
          g_id g' = p_goalId p \<and> g_userId g' = p_userId p"
    if "p \<in> set (progresses d)" for p
  proof -
    from assms that obtain g where g: "g \<in> set (goals d)" "g_id g = p_goalId p" "g_userId g = p_userId p"
      unfolding store_ok_iff by blast
    from in_update_first [OF g(1), of P "apply_set b now"] g(2,3) show ?thesis
      by (metis apply_set_keys(1,2))
  qed
  with assms show ?thesis
    by (simp add: store_ok_iff map_update_first)
qed

lemma store_ok_updateGoal:
  assumes "store_ok d"
  shows "store_ok (snd (updateGoal e d now ident b uid))"
  using updateGoal_store [of e d now ident b uid]
proof
  assume "snd (updateGoal e d now ident b uid) = d"
  with assms show ?thesis by simp
next
  assume "snd (updateGoal e d now ident b uid)
     = d\<lparr>goals := update_first (\<lambda>g. g_id g = ident \<and> g_userId g = uid) (apply_set b now) (goals d)\<rparr>"
  with assms show ?thesis by (simp add: store_ok_update_first)
qed

lemma deleteGoal_store:
  "snd (deleteGoal e d ident uid) = d \<or>
   snd (deleteGoal e d ident uid)
     = d\<lparr>goals := delete_first (\<lambda>g. g_id g = ident \<and> g_userId g = uid) (goals d),
         progresses := filter (\<lambda>p. \<not> (p_goalId p = ident \<and> p_userId p = uid)) (progresses d)\<rparr>"
  by (auto simp: deleteGoal_def Goal_findOneAndDelete_def Progress_deleteMany_def
        split: option.splits)

lemma store_ok_cascade:
  assumes "store_ok d"
  shows "store_ok (d\<lparr>goals := delete_first (\<lambda>g. g_id g = ident \<and> g_userId g = uid) (goals d),
           progresses := filter (\<lambda>p. \<not> (p_goalId p = ident \<and> p_userId p = uid)) (progresses d)\<rparr>)"
proof -
  let ?P = "\<lambda>g. g_id g = ident \<and> g_userId g = uid"
  have "\<exists>g\<in>set (delete_first ?P (goals d)). g_id g = p_goalId p \<and> g_userId g = p_userId p"
    if "p \<in> set (progresses d)" "\<not> (p_goalId p = ident \<and> p_userId p = uid)" for p
  proof -
    from assms that(1) obtain g where g: "g \<in> set (goals d)" "g_id g = p_goalId p" "g_userId g = p_userId p"
      unfolding store_ok_iff by blast
    with that(2) have "\<not> ?P g" by simp
    with g(1) have "g \<in> set (delete_first ?P (goals d))" by (rule in_delete_first)
    with g(2,3) show ?thesis by blast
  qed
  with assms show ?thesis
    by (simp add: store_ok_iff distinct_delete_first distinct_map_filter)
qed

lemma store_ok_deleteGoal:
  assumes "store_ok d"
  shows "store_ok (snd (deleteGoal e d ident uid))"
  using deleteGoal_store [of e d ident uid]
proof
  assume "snd (deleteGoal e d ident uid) = d"
  with assms show ?thesis by simp
next
  assume "snd (deleteGoal e d ident uid)
     = d\<lparr>goals := delete_first (\<lambda>g. g_id g = ident \<and> g_userId g = uid) (goals d),
         progresses := filter (\<lambda>p. \<not> (p_goalId p = ident \<and> p_userId p = uid)) (progresses d)\<rparr>"
  with store_ok_cascade [OF assms, of ident uid] show ?thesis by simp
qed

lemma store_ok_logProgress: "store_ok d \<Longrightarrow> store_ok (snd (logProgress e d newId now goalId b uid))"
  by (auto simp: logProgress_def Progress_create_def Let_def store_ok_iff
        dest!: Goal_findOne_Some split: option.splits sum.splits store_error.splits)

lemma store_ok_protected:
  "store_ok d \<Longrightarrow> (\<And>uid. store_ok (snd (controller uid))) \<Longrightarrow>
     store_ok (snd (protected e d now a controller))"
  by (simp add: protected_def split: sum.splits)

lemma store_ok_router: "store_ok d \<Longrightarrow> store_ok (snd (router e d newId now req))"
  by (cases req)
    (simp_all add: store_ok_registerUser loginUser_store store_ok_protected store_ok_createGoal
       getGoals_store getGoalById_store store_ok_updateGoal store_ok_deleteGoal
       store_ok_logProgress getGoalProgress_store)

lemma serve_store: "snd (serve e d newId now req) = snd (router e d newId now req)"
  by (simp add: serve_def split: prod.splits)

lemma reachable_store_ok: "reachable e d \<Longrightarrow> store_ok d"
  by (induction rule: reachable.induct) (simp_all add: store_ok_empty serve_store store_ok_router)

lemma reachable_serve_all:
  "reachable e d \<Longrightarrow> reachable e (serve_all e d reqs)"
proof (induction reqs arbitrary: d)
  case Nil
  then show ?case by simp
next
  case (Cons r reqs)
  obtain newId now req where r: "r = (newId, now, req)"
    by (cases r) auto
  from Cons.prems have "reachable e (snd (serve e d newId now req))"
    by (rule reachable_serve)
  then have "reachable e (serve_all e (snd (serve e d newId now req)) reqs)"
    by (rule Cons.IH)
  with r show ?case by simp
qed

lemma sample_reachable: "reachable sample_env sample_db"
  unfolding sample_db_def by (rule reachable_serve_all) (rule reachable_empty)

lemma Goal_findOne_owned:
  "g \<in> set (goals d) \<Longrightarrow> g_id g = gid \<Longrightarrow> g_userId g = uid \<Longrightarrow>
     \<exists>g'. Goal_findOne d gid uid = Some g'"
  using Goal_findOne_None [of d gid uid] by (cases "Goal_findOne d gid uid") auto

lemma store_ok_owner:
  assumes "store_ok d" and "p \<in> set (progresses d)" and "g \<in> set (goals d)"
    and "g_id g = p_goalId p"
  shows "g_userId g = p_userId p"
proof -
  from assms(1,2) obtain g' where g': "g' \<in> set (goals d)" "g_id g' = p_goalId p"
    "g_userId g' = p_userId p"
    unfolding store_ok_iff by blast
  from assms(1) have "inj_on g_id (set (goals d))"
    by (simp add: store_ok_iff distinct_map)
  with assms(3,4) g'(1,2) have "g = g'"
    unfolding inj_on_def by auto
  with g'(3) show ?thesis by simp
qed

lemma protected_snd:
  "snd (protected e d now a controller) = d
   \<or> (\<exists>uid. snd (protected e d now a controller) = snd (controller uid))"
  by (auto simp: protected_def split: sum.splits)

lemma router_progresses:
  "progresses (snd (router e d newId now req)) = progresses d
   \<or> (\<exists>p. progresses (snd (router e d newId now req)) = progresses d @ [p]
          \<and> p_id p \<notin> set (map p_id (progresses d)))
   \<or> (\<exists>Q. progresses (snd (router e d newId now req)) = filter Q (progresses d))"
proof (cases req)
  case (PostRegister email password)
  then show ?thesis
    by (auto simp: registerUser_def User_create_def Let_def
          split: option.splits sum.splits store_error.splits prod.splits)
next
  case (PostLogin email password)
  then show ?thesis by (simp add: loginUser_store)
next
  case (PostGoals h b)
  then show ?thesis
    by (auto simp: protected_def createGoal_def Goal_create_def Let_def
          split: option.splits sum.splits store_error.splits)
next
  case (GetGoals h)
  then show ?thesis by (simp add: protected_def getGoals_store split: sum.splits)
next
  case (GetGoal h ident)
  then show ?thesis by (simp add: protected_def getGoalById_store split: sum.splits)
next
  case (PutGoal h ident b)
  have "progresses (snd (updateGoal e d now ident b uid)) = progresses d" for uid
    using updateGoal_store [of e d now ident b uid] by auto
  with PutGoal protected_snd [of e d now h "updateGoal e d now ident b"] show ?thesis
    by auto
next
  case (DeleteGoal h ident)
  have "progresses (snd (deleteGoal e d ident uid)) = progresses d
      \<or> (\<exists>Q. progresses (snd (deleteGoal e d ident uid)) = filter Q (progresses d))" for uid
    using deleteGoal_store [of e d ident uid] by auto
  with DeleteGoal protected_snd [of e d now h "deleteGoal e d ident"] show ?thesis
    by (elim disjE exE) (simp, metis router.simps(7))
next
  case (PostProgress h goalId b)
  have "progresses (snd (logProgress e d newId now goalId b uid)) = progresses d
      \<or> (\<exists>p. progresses (snd (logProgress e d newId now goalId b uid)) = progresses d @ [p]
            \<and> p_id p \<notin> set (map p_id (progresses d)))" for uid
    by (auto simp: logProgress_def Progress_create_def Let_def
          split: option.splits sum.splits store_error.splits)
  with PostProgress protected_snd [of e d now h "logProgress e d newId now goalId b"]
  show ?thesis
    by (elim disjE exE) (simp, metis router.simps(8))
next
  case (GetProgress h goalId)
  then show ?thesis by (simp add: protected_def getGoalProgress_store split: sum.splits)
qed

lemma progresses_immutable:
  assumes "store_ok d" and "p' \<in> set (progresses (snd (router e d newId now req)))"
    and "p \<in> set (progresses d)" and "p_id p' = p_id p"
  shows "p' = p"
proof -
  from assms(1) have inj: "inj_on p_id (set (progresses d))"
    by (simp add: store_ok_iff distinct_map)
  from router_progresses [of e d newId now req] assms(2,3,4)
  have "p' \<in> set (progresses d)"
    by (elim disjE exE) (auto simp: image_iff)
  with inj assms(3,4) show ?thesis
    unfolding inj_on_def by auto
qed

lemma logProgress_creates:
  assumes "progresses (snd (logProgress e d newId now goalId b uid)) \<noteq> progresses d"
  shows "(\<exists>g\<in>set (goals d). g_id g = goalId \<and> g_userId g = uid) \<and>
         (\<exists>p. progresses (snd (logProgress e d newId now goalId b uid)) = progresses d @ [p]
              \<and> p_goalId p = goalId \<and> p_userId p = uid)"
  using assms
  by (auto simp: logProgress_def Progress_create_def Let_def
        dest!: Goal_findOne_Some split: option.splits sum.splits store_error.splits if_splits)

text \<open>
  Claim C5. In every store the service can reach, each progress entry references a
  stored goal with the same owner (and any stored goal with that identifier has that
  owner). Serving any request keeps this, never changes an entry that is already
  stored (an entry of the new store with the identifier of an old entry is that entry),
  and \<^verbatim>\<open>logProgress\<close> adds an entry only for a goal it found under the authenticated
  account, with that goal and that account as its references.
\<close>

theorem progress_ownership_invariant:
  assumes "reachable e d"
  shows "(\<forall>p\<in>set (progresses d).
            (\<exists>g\<in>set (goals d). g_id g = p_goalId p \<and> g_userId g = p_userId p) \<and>
            (\<forall>g\<in>set (goals d). g_id g = p_goalId p \<longrightarrow> g_userId g = p_userId p))
       \<and> (\<forall>p'\<in>set (progresses (snd (serve e d newId now req))).
            (\<exists>g\<in>set (goals (snd (serve e d newId now req))).
                g_id g = p_goalId p' \<and> g_userId g = p_userId p') \<and>
            (\<forall>p\<in>set (progresses d). p_id p' = p_id p \<longrightarrow> p' = p))
       \<and> (progresses (snd (logProgress e d newId now goalId b uid)) \<noteq> progresses d \<longrightarrow>
            (\<exists>g\<in>set (goals d). g_id g = goalId \<and> g_userId g = uid) \<and>
            (\<exists>p. progresses (snd (logProgress e d newId now goalId b uid)) = progresses d @ [p]
                 \<and> p_goalId p = goalId \<and> p_userId p = uid))"
proof -
  from assms have ok: "store_ok d" by (rule reachable_store_ok)
  then have ok': "store_ok (snd (serve e d newId now req))"
    by (simp add: serve_store store_ok_router)
  have now_ok: "\<forall>p\<in>set (progresses d).
            (\<exists>g\<in>set (goals d). g_id g = p_goalId p \<and> g_userId g = p_userId p) \<and>
            (\<forall>g\<in>set (goals d). g_id g = p_goalId p \<longrightarrow> g_userId g = p_userId p)"
    using ok store_ok_owner [OF ok] unfolding store_ok_iff by blast
  have kept: "\<exists>g\<in>set (goals (snd (serve e d newId now req))).
                g_id g = p_goalId p' \<and> g_userId g = p_userId p'"
    if "p' \<in> set (progresses (snd (serve e d newId now req)))" for p'
    using ok' that unfolding store_ok_iff by blast
  have same: "p' = p"
    if "p' \<in> set (progresses (snd (serve e d newId now req)))"
      and "p \<in> set (progresses d)" and "p_id p' = p_id p" for p' p
    using progresses_immutable [OF ok, of p' e newId now req p] that
    by (simp add: serve_store)
  have logged: "progresses (snd (logProgress e d newId now goalId b uid)) \<noteq> progresses d \<longrightarrow>
            (\<exists>g\<in>set (goals d). g_id g = goalId \<and> g_userId g = uid) \<and>
            (\<exists>p. progresses (snd (logProgress e d newId now goalId b uid)) = progresses d @ [p]
                 \<and> p_goalId p = goalId \<and> p_userId p = uid)"
    using logProgress_creates by blast
  from kept same have after: "\<forall>p'\<in>set (progresses (snd (serve e d newId now req))).
            (\<exists>g\<in>set (goals (snd (serve e d newId now req))).
                g_id g = p_goalId p' \<and> g_userId g = p_userId p') \<and>
            (\<forall>p\<in>set (progresses d). p_id p' = p_id p \<longrightarrow> p' = p)"
    by blast
  from now_ok after logged show ?thesis
    by (intro conjI)
qed

theorem progress_ownership_invariant_witness:
  "reachable sample_env sample_db
   \<and> hd (progresses sample_db) \<in> set (progresses sample_db)
   \<and> hd (goals sample_db) \<in> set (goals sample_db)
   \<and> g_id (hd (goals sample_db)) = p_goalId (hd (progresses sample_db))
   \<and> g_userId (hd (goals sample_db)) = p_userId (hd (progresses sample_db))
   \<and> progresses (snd (logProgress sample_env sample_db ''00000000000000000000d003'' 6000 run5k
          \<lparr>b_date = None, b_notes = None, b_value = Some 8\<rparr> alice)) \<noteq> progresses sample_db
   \<and> p_userId (last (progresses (snd (logProgress sample_env sample_db
          ''00000000000000000000d003'' 6000 run5k
          \<lparr>b_date = None, b_notes = None, b_value = Some 8\<rparr> alice)))) = alice"
proof -
  have grown: "length (progresses (snd (logProgress sample_env sample_db
        ''00000000000000000000d003'' 6000 run5k
        \<lparr>b_date = None, b_notes = None, b_value = Some 8\<rparr> alice))) = 3"
    by code_simp
  have "length (progresses sample_db) = 2"
    by (simp add: sample_db_eq)
  with grown have changed: "progresses (snd (logProgress sample_env sample_db
        ''00000000000000000000d003'' 6000 run5k
        \<lparr>b_date = None, b_notes = None, b_value = Some 8\<rparr> alice)) \<noteq> progresses sample_db"
    by auto
  have members: "hd (progresses sample_db) \<in> set (progresses sample_db)"
    "hd (goals sample_db) \<in> set (goals sample_db)"
    "g_id (hd (goals sample_db)) = p_goalId (hd (progresses sample_db))"
    by (simp_all add: sample_db_eq)
  from progress_ownership_invariant [OF sample_reachable,
      of "''00000000000000000000d003''" 6000 "GetGoals None" run5k
        "\<lparr>b_date = None, b_notes = None, b_value = Some 8\<rparr>" alice]
    changed members sample_reachable
  show ?thesis by auto
qed

subsection \<open>Deleting a goal\<close>

lemma delete_first_filter:
  "distinct (map k xs) \<Longrightarrow> \<forall>x. P x \<longrightarrow> k x = a \<Longrightarrow> \<forall>x\<in>set xs. k x = a \<longrightarrow> P x \<Longrightarrow>
     delete_first P xs = filter (\<lambda>x. k x \<noteq> a) xs"
proof (induction xs)
  case Nil
  then show ?case by simp
next
  case (Cons x xs)
  have IH: "delete_first P xs = filter (\<lambda>x. k x \<noteq> a) xs"
  proof (rule Cons.IH)
    from Cons.prems(1) show "distinct (map k xs)" by simp
    from Cons.prems(2) show "\<forall>x. P x \<longrightarrow> k x = a" .
    from Cons.prems(3) show "\<forall>x\<in>set xs. k x = a \<longrightarrow> P x" by simp
  qed
  show ?case
  proof (cases "P x")
    case True
    with Cons.prems(2) have kx: "k x = a" by blast
    from Cons.prems(1) have "k x \<notin> k ` set xs" by simp
    with kx have "\<forall>y\<in>set xs. k y \<noteq> a" by blast
    then have "filter (\<lambda>x. k x \<noteq> a) xs = xs"
      by (simp add: filter_id_conv)
    with True kx show ?thesis by simp
  next
    case False
    with Cons.prems(3) have "k x \<noteq> a" by simp
    with False IH show ?thesis by simp
  qed
qed

lemma cascade_filter:
  assumes "store_ok d" and "g \<in> set (goals d)" and "g_id g = ident" and "g_userId g = uid"
  shows "filter (\<lambda>p. \<not> (p_goalId p = ident \<and> p_userId p = uid)) (progresses d)
           = filter (\<lambda>p. p_goalId p \<noteq> ident) (progresses d)"
proof (rule filter_cong [OF refl])
  fix p assume "p \<in> set (progresses d)"
  with assms store_ok_owner [OF assms(1) _ assms(2)]
  show "(\<not> (p_goalId p = ident \<and> p_userId p = uid)) = (p_goalId p \<noteq> ident)"
    by auto
qed

text \<open>
  Claim C3. Deleting a goal the authenticated account owns answers 204 with no body;
  afterwards the progress store holds exactly its former entries for other goals, in
  their former order and unchanged, and none that references the deleted goal.
\<close>

theorem deleteGoal_cascade:
  assumes "reachable e d" and "isValidObjectId e ident"
    and "g \<in> set (goals d)" and "g_id g = ident" and "g_userId g = uid"
  shows "fst (deleteGoal e d ident uid) = Sent (Response 204 Empty)
       \<and> progresses (snd (deleteGoal e d ident uid))
            = filter (\<lambda>p. p_goalId p \<noteq> ident) (progresses d)
       \<and> goals (snd (deleteGoal e d ident uid)) = filter (\<lambda>g. g_id g \<noteq> ident) (goals d)
       \<and> users (snd (deleteGoal e d ident uid)) = users d"
proof -
  from assms(1) have ok: "store_ok d" by (rule reachable_store_ok)
  from assms(3-5) obtain g' where found: "Goal_findOne d ident uid = Some g'"
    using Goal_findOne_owned by blast
  have owner: "g_userId x = uid" if "x \<in> set (goals d)" "g_id x = ident" for x
  proof -
    from ok have "inj_on g_id (set (goals d))"
      by (simp add: store_ok_iff distinct_map)
    with that assms(3,4) have "x = g" unfolding inj_on_def by auto
    with assms(5) show ?thesis by simp
  qed
  have goals_eq: "delete_first (\<lambda>g. g_id g = ident \<and> g_userId g = uid) (goals d)
      = filter (\<lambda>g. g_id g \<noteq> ident) (goals d)"
  proof (rule delete_first_filter)
    from ok show "distinct (map g_id (goals d))"
      by (simp add: store_ok_iff)
    show "\<forall>x. g_id x = ident \<and> g_userId x = uid \<longrightarrow> g_id x = ident"
      by simp
    from owner show "\<forall>x\<in>set (goals d). g_id x = ident \<longrightarrow> g_id x = ident \<and> g_userId x = uid"
      by blast
  qed
  from found assms(2) have "deleteGoal e d ident uid
      = (Sent (Response 204 Empty),
         d\<lparr>goals := delete_first (\<lambda>g. g_id g = ident \<and> g_userId g = uid) (goals d),
           progresses := filter (\<lambda>p. \<not> (p_goalId p = ident \<and> p_userId p = uid)) (progresses d)\<rparr>)"
    by (simp add: deleteGoal_def Goal_findOneAndDelete_def Progress_deleteMany_def)
  with goals_eq cascade_filter [OF ok assms(3-5)] show ?thesis
    by simp
qed

theorem deleteGoal_cascade_witness:
  "reachable sample_env sample_db \<and> isValidObjectId sample_env run5k
   \<and> hd (goals sample_db) \<in> set (goals sample_db)
   \<and> g_id (hd (goals sample_db)) = run5k \<and> g_userId (hd (goals sample_db)) = alice
   \<and> progresses sample_db \<noteq> []
   \<and> fst (deleteGoal sample_env sample_db run5k alice) = Sent (Response 204 Empty)
   \<and> progresses (snd (deleteGoal sample_env sample_db run5k alice)) = []
   \<and> goals (snd (deleteGoal sample_env sample_db run5k alice)) = []"
proof -
  have v: "isValidObjectId sample_env run5k"
    by (simp add: isValidObjectId_def sample_env_def run5k_def is_hex_def)
  have g: "hd (goals sample_db) \<in> set (goals sample_db)"
    "g_id (hd (goals sample_db)) = run5k" "g_userId (hd (goals sample_db)) = alice"
    by (simp_all add: sample_db_eq run5k_def alice_def)
  have p: "progresses sample_db \<noteq> []"
    "filter (\<lambda>p. p_goalId p \<noteq> run5k) (progresses sample_db) = []"
    "filter (\<lambda>g. g_id g \<noteq> run5k) (goals sample_db) = []"
    by (simp_all add: sample_db_eq run5k_def)
  from deleteGoal_cascade [OF sample_reachable v g] sample_reachable v g p
  show ?thesis by simp
qed

subsection \<open>Listing progress\<close>

lemma listed_before_key:
  "listed_before p q \<longleftrightarrow> (p_date q, p_createdAt q) \<le> (p_date p, p_createdAt p)"
  by (auto simp: listed_before_def less_eq_prod_def)

lemma sorted_wrt_sort_desc:
  "sorted_wrt (\<lambda>x y. key y \<le> key x) (sort_desc key xs)"
proof -
  have "sorted (map key (sort_key key xs))"
    by (rule sorted_sort_key)
  then have "sorted_wrt (\<lambda>x y. key x \<le> key y) (sort_key key xs)"
    by (simp add: sorted_wrt_map)
  then show ?thesis
    by (simp add: sort_desc_def sorted_wrt_rev)
qed

lemma mset_sort_desc: "mset (sort_desc key xs) = mset xs"
  by (simp add: sort_desc_def)

text \<open>
  Claim C9. Listing the progress of a goal the requester owns answers 200 with exactly
  the stored entries of that goal (each as often as it is stored), the entry with the
  later date first and, among entries of one date, the one created later first.
\<close>

theorem getGoalProgress_listing:
  assumes "reachable e d" and "isValidObjectId e goalId"
    and "g \<in> set (goals d)" and "g_id g = goalId" and "g_userId g = uid"
  shows "\<exists>entries. getGoalProgress e d goalId uid = (Sent (Response 200 (ProgressList entries)), d)
           \<and> mset entries = mset (filter (\<lambda>p. p_goalId p = goalId) (progresses d))
           \<and> sorted_wrt listed_before entries"
proof -
  from assms(1) have ok: "store_ok d" by (rule reachable_store_ok)
  from assms(3-5) obtain g' where found: "Goal_findOne d goalId uid = Some g'"
    using Goal_findOne_owned by blast
  let ?entries = "sort_desc (\<lambda>p. (p_date p, p_createdAt p)) (Progress_find d goalId uid)"
  have "Progress_find d goalId uid = filter (\<lambda>p. p_goalId p = goalId) (progresses d)"
    unfolding Progress_find_def
  proof (rule filter_cong [OF refl])
    fix p assume "p \<in> set (progresses d)"
    with assms(3-5) store_ok_owner [OF ok _ assms(3)]
    show "(p_goalId p = goalId \<and> p_userId p = uid) = (p_goalId p = goalId)"
      by auto
  qed
  then have "mset ?entries = mset (filter (\<lambda>p. p_goalId p = goalId) (progresses d))"
    by (simp add: mset_sort_desc)
  moreover have "sorted_wrt listed_before ?entries"
    using sorted_wrt_sort_desc [of "\<lambda>p. (p_date p, p_createdAt p)" "Progress_find d goalId uid"]
    by (simp add: listed_before_key [abs_def])
  moreover from found assms(2)
  have "getGoalProgress e d goalId uid = (Sent (Response 200 (ProgressList ?entries)), d)"
    by (simp add: getGoalProgress_def)
  ultimately show ?thesis by blast
qed

theorem getGoalProgress_listing_witness:
  "reachable sample_env sample_db \<and> isValidObjectId sample_env run5k
   \<and> hd (goals sample_db) \<in> set (goals sample_db)
   \<and> g_id (hd (goals sample_db)) = run5k \<and> g_userId (hd (goals sample_db)) = alice
   \<and> getGoalProgress sample_env sample_db run5k alice
       = (Sent (Response 200 (ProgressList (rev (progresses sample_db)))), sample_db)
   \<and> map p_date (rev (progresses sample_db)) = [4000, 4000]
   \<and> map p_createdAt (rev (progresses sample_db)) = [5000, 4000]
   \<and> sorted_wrt listed_before (rev (progresses sample_db))"
proof -
  have v: "isValidObjectId sample_env run5k"
    by (simp add: isValidObjectId_def sample_env_def run5k_def is_hex_def)
  have g: "hd (goals sample_db) \<in> set (goals sample_db)"
    "g_id (hd (goals sample_db)) = run5k" "g_userId (hd (goals sample_db)) = alice"
    by (simp_all add: sample_db_eq run5k_def alice_def)
  have r: "getGoalProgress sample_env sample_db run5k alice
       = (Sent (Response 200 (ProgressList (rev (progresses sample_db)))), sample_db)"
    by code_simp
  have m: "map p_date (rev (progresses sample_db)) = [4000, 4000]"
    "map p_createdAt (rev (progresses sample_db)) = [5000, 4000]"
    by (simp_all add: sample_db_eq)
  from getGoalProgress_listing [OF sample_reachable v g] r
  have "sorted_wrt listed_before (rev (progresses sample_db))"
    by auto
  with sample_reachable v g r m show ?thesis by simp
qed

subsection \<open>Updating a goal\<close>

lemma find_update_first:
  "find P xs = Some x \<Longrightarrow> P (f x) \<Longrightarrow> find P (update_first P f xs) = Some (f x)"
  by (induction xs) (auto split: if_splits)

lemma updateGoal_Sent:
  assumes "updateGoal e d now ident b uid = (Sent r, d')"
  shows "\<exists>g. Goal_findOne d ident uid = Some g \<and> r = Response 200 (GoalDoc (apply_set b now g))
           \<and> d' = d\<lparr>goals := update_first (\<lambda>g. g_id g = ident \<and> g_userId g = uid)
                               (apply_set b now) (goals d)\<rparr>"
  using assms
  by (auto simp: updateGoal_def Goal_findOneAndUpdate_def Let_def
        split: if_splits option.splits sum.splits store_error.splits)

lemma Goal_findOne_updated:
  assumes "Goal_findOne d ident uid = Some g"
  shows "Goal_findOne (d\<lparr>goals := update_first (\<lambda>g. g_id g = ident \<and> g_userId g = uid)
                                    (apply_set b now) (goals d)\<rparr>) ident uid
           = Some (apply_set b now g)"
proof -
  from assms have "g_id g = ident \<and> g_userId g = uid"
    by (simp add: Goal_findOne_Some)
  with assms show ?thesis
    unfolding Goal_findOne_def by (simp add: find_update_first)
qed

text \<open>
  Claim C6. When an update succeeds, the response and the store hold the goal found
  under the requester, with each supplied field replaced (strings trimmed) and every
  field the body does not supply as it was; identifier, owner and creation time stay.
  In particular, after an update whose body carries only a status, the record is the
  old one with the new status and a new \<^verbatim>\<open>updatedAt\<close>: title, description and target
  date are unchanged.
\<close>

theorem updateGoal_only_supplied_fields:
  assumes "updateGoal e d now ident b uid = (Sent r, d')"
  shows "\<exists>g g'. Goal_findOne d ident uid = Some g \<and> r = Response 200 (GoalDoc g')
           \<and> Goal_findOne d' ident uid = Some g'
           \<and> g_id g' = g_id g \<and> g_userId g' = g_userId g \<and> g_createdAt g' = g_createdAt g
           \<and> g_title g' = (case b_title b of None \<Rightarrow> g_title g | Some t \<Rightarrow> trim t)
           \<and> g_description g'
               = (case b_description b of None \<Rightarrow> g_description g | Some s \<Rightarrow> Some (trim s))
           \<and> g_status g' = (case b_status b of None \<Rightarrow> g_status g | Some s \<Rightarrow> s)
           \<and> g_targetDate g'
               = (case b_targetDate b of None \<Rightarrow> g_targetDate g | Some t \<Rightarrow> Some t)
           \<and> (b = no_fields\<lparr>b_status := Some s\<rparr> \<longrightarrow>
                g' = g\<lparr>g_status := s, g_updatedAt := now\<rparr>
                \<and> g_title g' = g_title g \<and> g_description g' = g_description g
                \<and> g_targetDate g' = g_targetDate g)"
proof -
  from updateGoal_Sent [OF assms] obtain g where g: "Goal_findOne d ident uid = Some g"
    "r = Response 200 (GoalDoc (apply_set b now g))"
    "d' = d\<lparr>goals := update_first (\<lambda>g. g_id g = ident \<and> g_userId g = uid)
                               (apply_set b now) (goals d)\<rparr>"
    by blast
  from g(1,3) have "Goal_findOne d' ident uid = Some (apply_set b now g)"
    by (simp add: Goal_findOne_updated)
  moreover have "b = no_fields\<lparr>b_status := Some s\<rparr> \<longrightarrow>
      apply_set b now g = g\<lparr>g_status := s, g_updatedAt := now\<rparr>"
    by (simp add: apply_set_def no_fields_def)
  ultimately show ?thesis
    using g(1,2) by (intro exI [of _ g] exI [of _ "apply_set b now g"])
      (auto simp: apply_set_def no_fields_def)
qed

theorem updateGoal_only_supplied_fields_witness:
  "updateGoal sample_env sample_db 6000 run5k (no_fields\<lparr>b_status := Some ''completed''\<rparr>) alice
     = (Sent (Response 200 (GoalDoc
          ((hd (goals sample_db))\<lparr>g_status := ''completed'', g_updatedAt := 6000\<rparr>))),
        sample_db\<lparr>goals := [(hd (goals sample_db))\<lparr>g_status := ''completed'', g_updatedAt := 6000\<rparr>]\<rparr>)
   \<and> Goal_findOne sample_db run5k alice = Some (hd (goals sample_db))
   \<and> g_title (hd (goals sample_db)) = ''Run 5k''
   \<and> g_status (hd (goals sample_db)) = ''active''"
proof -
  have run: "updateGoal sample_env sample_db 6000 run5k (no_fields\<lparr>b_status := Some ''completed''\<rparr>) alice
     = (Sent (Response 200 (GoalDoc
          ((hd (goals sample_db))\<lparr>g_status := ''completed'', g_updatedAt := 6000\<rparr>))),
        sample_db\<lparr>goals := [(hd (goals sample_db))\<lparr>g_status := ''completed'', g_updatedAt := 6000\<rparr>]\<rparr>)"
    by code_simp
  have found: "Goal_findOne sample_db run5k alice = Some (hd (goals sample_db))"
    by code_simp
  have fields: "g_title (hd (goals sample_db)) = ''Run 5k''"
    "g_status (hd (goals sample_db)) = ''active''"
    by (simp_all add: sample_db_eq)
  from updateGoal_only_supplied_fields [OF run, of "''completed''"] run found fields
  show ?thesis by simp
qed




subsection \<open>Creating a goal\<close>






subsection \<open>Goals of another account\<close>










end
